theory Spec2Isabelle
  imports Main
begin

section \<open>Data model of game.page.ts\<close>

text \<open>
  The string-literal types of the source: a player's symbol is \<^verbatim>\<open>'X' | 'O'\<close>, a cell
  value (and the winner field) is \<^verbatim>\<open>'' | 'X' | 'O'\<close>. The constructor \<open>Empty\<close> is
  the empty string, the only falsy value of the type.
\<close>

datatype Symbol = X_sym | O_sym

datatype CellValue = Empty | Sym Symbol

text \<open>Class \<^verbatim>\<open>Cell\<close>: one mutable field \<^verbatim>\<open>value\<close>.\<close>

datatype Cell = Cell (cvalue: CellValue)

text \<open>
  Class \<^verbatim>\<open>Player\<close>. The field \<^verbatim>\<open>count\<close> is a JavaScript number that the class only
  ever sets to 0 and increments; it is modelled as an integer.
\<close>

record Player =
  symbol :: Symbol
  count :: int

text \<open>
  \<^verbatim>\<open>currentPlayer\<close> is a reference to one of the two player objects, never a copy:
  a write through it changes \<^verbatim>\<open>xPlayer\<close> or \<^verbatim>\<open>oPlayer\<close>. The reference is a tag
  naming the object it points to.
\<close>

datatype PlayerRef = XPlayerRef | OPlayerRef

text \<open>
  Reading a property of \<^verbatim>\<open>undefined\<close> or destructuring \<^verbatim>\<open>null\<close> throws a TypeError;
  it is the only exception this code can raise.
\<close>

datatype error = TypeError

text \<open>
  Class \<^verbatim>\<open>GamePage\<close>. The board is an array of arrays of cells; the selected cell is
  \<^verbatim>\<open>{row, col} | null\<close>, here an optional pair (row, col). Indices are JavaScript
  numbers, modelled as integers.
\<close>

record GamePage =
  board :: "Cell list list"
  xPlayer :: Player
  oPlayer :: Player
  currentPlayer :: PlayerRef
  winner :: CellValue
  message :: string
  selectedCell :: "(int \<times> int) option"

definition emptyBoard :: "Cell list list" where
  "emptyBoard =
     [[Cell Empty, Cell Empty, Cell Empty],
      [Cell Empty, Cell Empty, Cell Empty],
      [Cell Empty, Cell Empty, Cell Empty]]"

text \<open>The field initialisers of the class: the state of a freshly constructed page.\<close>

definition initGame :: GamePage where
  "initGame =
     \<lparr>board = emptyBoard,
      xPlayer = \<lparr>symbol = X_sym, count = 0\<rparr>,
      oPlayer = \<lparr>symbol = O_sym, count = 0\<rparr>,
      currentPlayer = XPlayerRef,
      winner = Empty,
      message = [],
      selectedCell = None\<rparr>"

section \<open>Reading and writing cells\<close>

text \<open>
  \<^verbatim>\<open>this.board[r][c].value\<close>: when \<open>r\<close> is not an index of the board, \<^verbatim>\<open>board[r]\<close> is
  \<^verbatim>\<open>undefined\<close> and indexing it throws; when \<open>c\<close> is not an index of the row,
  \<^verbatim>\<open>board[r][c]\<close> is \<^verbatim>\<open>undefined\<close> and reading or writing \<^verbatim>\<open>.value\<close> throws.
\<close>

definition inBoard :: "Cell list list \<Rightarrow> int \<Rightarrow> int \<Rightarrow> bool" where
  "inBoard b r c \<longleftrightarrow>
     0 \<le> r \<and> r < int (length b) \<and> 0 \<le> c \<and> c < int (length (b ! nat r))"

definition readCell :: "Cell list list \<Rightarrow> int \<Rightarrow> int \<Rightarrow> error + CellValue" where
  "readCell b r c =
     (if inBoard b r c then Inr (cvalue (b ! nat r ! nat c)) else Inl TypeError)"

definition updCell :: "Cell list list \<Rightarrow> int \<Rightarrow> int \<Rightarrow> CellValue \<Rightarrow> Cell list list" where
  "updCell b r c v = b[nat r := (b ! nat r)[nat c := Cell v]]"

definition writeCell :: "Cell list list \<Rightarrow> int \<Rightarrow> int \<Rightarrow> CellValue \<Rightarrow> error + Cell list list" where
  "writeCell b r c v = (if inBoard b r c then Inr (updCell b r c v) else Inl TypeError)"

section \<open>The players\<close>

definition deref :: "GamePage \<Rightarrow> PlayerRef \<Rightarrow> Player" where
  "deref s p = (case p of XPlayerRef \<Rightarrow> xPlayer s | OPlayerRef \<Rightarrow> oPlayer s)"

definition otherRef :: "PlayerRef \<Rightarrow> PlayerRef" where
  "otherRef p = (case p of XPlayerRef \<Rightarrow> OPlayerRef | OPlayerRef \<Rightarrow> XPlayerRef)"

text \<open>\<^verbatim>\<open>this.currentPlayer.count++\<close>: the write goes to the object referred to.\<close>

definition incrementCount :: "GamePage \<Rightarrow> GamePage" where
  "incrementCount s =
     (case currentPlayer s of
        XPlayerRef \<Rightarrow> s\<lparr>xPlayer := (xPlayer s)\<lparr>count := count (xPlayer s) + 1\<rparr>\<rparr>
      | OPlayerRef \<Rightarrow> s\<lparr>oPlayer := (oPlayer s)\<lparr>count := count (oPlayer s) + 1\<rparr>\<rparr>)"

text \<open>\<^verbatim>\<open>switchPlayer\<close>, lines 249-252.\<close>

definition switchPlayer :: "GamePage \<Rightarrow> GamePage" where
  "switchPlayer s =
     s\<lparr>currentPlayer :=
         (if symbol (deref s (currentPlayer s)) = X_sym then OPlayerRef else XPlayerRef)\<rparr>"

section \<open>The win detector\<close>

definition triple ::
  "Cell list list \<Rightarrow> int \<times> int \<Rightarrow> int \<times> int \<Rightarrow> int \<times> int \<Rightarrow>
     error + (CellValue \<times> CellValue \<times> CellValue)" where
  "triple b p0 p1 p2 =
     (case readCell b (fst p0) (snd p0) of
        Inl e \<Rightarrow> Inl e
      | Inr v0 \<Rightarrow>
          (case readCell b (fst p1) (snd p1) of
             Inl e \<Rightarrow> Inl e
           | Inr v1 \<Rightarrow>
               (case readCell b (fst p2) (snd p2) of
                  Inl e \<Rightarrow> Inl e
                | Inr v2 \<Rightarrow> Inr (v0, v1, v2))))"

text \<open>An array literal evaluates its elements in order; the first throw ends it.\<close>

fun collect :: "(error + 'a) list \<Rightarrow> error + 'a list" where
  "collect [] = Inr []"
| "collect (Inl e # ms) = Inl e"
| "collect (Inr x # ms) = (case collect ms of Inl e \<Rightarrow> Inl e | Inr xs \<Rightarrow> Inr (x # xs))"

text \<open>\<^verbatim>\<open>getLines\<close>, lines 196-244.\<close>

definition getLines :: "Cell list list \<Rightarrow> error + (CellValue \<times> CellValue \<times> CellValue) list" where
  "getLines b =
     collect
       [triple b (0, 0) (0, 1) (0, 2),
        triple b (1, 0) (1, 1) (1, 2),
        triple b (2, 0) (2, 1) (2, 2),
        triple b (0, 0) (1, 0) (2, 0),
        triple b (0, 1) (1, 1) (2, 1),
        triple b (0, 2) (1, 2) (2, 2),
        triple b (0, 0) (1, 1) (2, 2),
        triple b (0, 2) (1, 1) (2, 0)]"

text \<open>The template literal \<^verbatim>\<open>`Player ${this.winner} wins!`\<close>.\<close>

definition valueString :: "CellValue \<Rightarrow> string" where
  "valueString v = (case v of Empty \<Rightarrow> [] | Sym X_sym \<Rightarrow> ''X'' | Sym O_sym \<Rightarrow> ''O'')"

definition winMessage :: "CellValue \<Rightarrow> string" where
  "winMessage v = ''Player '' @ valueString v @ '' wins!''"

definition lineWins :: "CellValue \<times> CellValue \<times> CellValue \<Rightarrow> bool" where
  "lineWins line =
     (case line of (l0, l1, l2) \<Rightarrow> l0 \<noteq> Empty \<and> l0 = l1 \<and> l1 = l2)"

text \<open>The \<^verbatim>\<open>for\<close> loop of \<^verbatim>\<open>checkWinner\<close>, lines 178-188, with its early return.\<close>

fun checkLines :: "(CellValue \<times> CellValue \<times> CellValue) list \<Rightarrow> GamePage \<Rightarrow> GamePage" where
  "checkLines [] s = s"
| "checkLines (line # rest) s =
     (if lineWins line
      then s\<lparr>winner := fst line, message := winMessage (fst line)\<rparr>
      else checkLines rest s)"

text \<open>\<^verbatim>\<open>checkWinner\<close>, lines 176-191.\<close>

definition checkWinner :: "GamePage \<Rightarrow> error + GamePage" where
  "checkWinner s =
     (case getLines (board s) of
        Inl e \<Rightarrow> Inl e
      | Inr lines \<Rightarrow> Inr (checkLines lines s))"

section \<open>The handlers\<close>

text \<open>The tail shared by placement and movement: check for a winner, switch if none.\<close>

definition checkAndSwitch :: "GamePage \<Rightarrow> error + GamePage" where
  "checkAndSwitch s =
     (case checkWinner s of
        Inl e \<Rightarrow> Inl e
      | Inr s' \<Rightarrow> Inr (if winner s' = Empty then switchPlayer s' else s'))"

text \<open>\<^verbatim>\<open>handlePlace\<close>, lines 94-119.\<close>

definition handlePlace :: "GamePage \<Rightarrow> int \<Rightarrow> int \<Rightarrow> error + GamePage" where
  "handlePlace s rowIndex colIndex =
     (case readCell (board s) rowIndex colIndex of
        Inl e \<Rightarrow> Inl e
      | Inr v \<Rightarrow>
          if v \<noteq> Empty then Inr s
          else
            (let sym = symbol (deref s (currentPlayer s)) in
             if count (deref s (currentPlayer s)) < 3 then
               (case writeCell (board s) rowIndex colIndex (Sym sym) of
                  Inl e \<Rightarrow> Inl e
                | Inr b' \<Rightarrow> checkAndSwitch (incrementCount (s\<lparr>board := b'\<rparr>)))
             else Inr s))"

text \<open>\<^verbatim>\<open>handleMove\<close>, lines 129-159.\<close>

definition handleMove :: "GamePage \<Rightarrow> int \<Rightarrow> int \<Rightarrow> error + GamePage" where
  "handleMove s rowIndex colIndex =
     (case selectedCell s of
        None \<Rightarrow> Inl TypeError
      | Some (row, col) \<Rightarrow>
          (case readCell (board s) rowIndex colIndex of
             Inl e \<Rightarrow> Inl e
           | Inr v \<Rightarrow>
               if v = Sym (symbol (deref s (currentPlayer s)))
                  \<and> (rowIndex \<noteq> row \<or> colIndex \<noteq> col)
               then Inr (s\<lparr>selectedCell := Some (rowIndex, colIndex)\<rparr>)
               else if v = Empty then
                 (case readCell (board s) row col of
                    Inl e \<Rightarrow> Inl e
                  | Inr w \<Rightarrow>
                      (case writeCell (board s) rowIndex colIndex w of
                         Inl e \<Rightarrow> Inl e
                       | Inr b1 \<Rightarrow>
                           (case writeCell b1 row col Empty of
                              Inl e \<Rightarrow> Inl e
                            | Inr b2 \<Rightarrow>
                                checkAndSwitch (s\<lparr>board := b2, selectedCell := None\<rparr>))))
               else Inr s))"

text \<open>\<^verbatim>\<open>onSelectPiece\<close>, lines 166-171.\<close>

definition onSelectPiece :: "GamePage \<Rightarrow> int \<Rightarrow> int \<Rightarrow> error + GamePage" where
  "onSelectPiece s rowIndex colIndex =
     (case readCell (board s) rowIndex colIndex of
        Inl e \<Rightarrow> Inl e
      | Inr v \<Rightarrow>
          if v = Sym (symbol (deref s (currentPlayer s)))
          then Inr (s\<lparr>selectedCell := Some (rowIndex, colIndex)\<rparr>)
          else Inr s)"

text \<open>
  \<^verbatim>\<open>onCellClick\<close>, lines 62-88: the dispatcher, which the specification calls
  \<open>handleCellSelected\<close>.
\<close>

definition onCellClick :: "GamePage \<Rightarrow> int \<Rightarrow> int \<Rightarrow> error + GamePage" where
  "onCellClick s rowIndex colIndex =
     (if winner s \<noteq> Empty then Inr s
      else if selectedCell s \<noteq> None then handleMove s rowIndex colIndex
      else if count (deref s (currentPlayer s)) \<ge> 3 then onSelectPiece s rowIndex colIndex
      else handlePlace s rowIndex colIndex)"

text \<open>\<^verbatim>\<open>resetGame\<close>, lines 257-276.\<close>

definition resetGame :: "GamePage \<Rightarrow> GamePage" where
  "resetGame s =
     s\<lparr>board := emptyBoard,
       xPlayer := (xPlayer s)\<lparr>count := 0\<rparr>,
       oPlayer := (oPlayer s)\<lparr>count := 0\<rparr>,
       currentPlayer := XPlayerRef,
       winner := Empty,
       message := [],
       selectedCell := None\<rparr>"

section \<open>Sequences of calls and reachable states\<close>

text \<open>
  A sequence of clicks forwarded by the page template, stopping at the first exception.
\<close>

fun clicks :: "GamePage \<Rightarrow> (int \<times> int) list \<Rightarrow> error + GamePage" where
  "clicks s [] = Inr s"
| "clicks s ((r, c) # cs) =
     (case onCellClick s r c of Inl e \<Rightarrow> Inl e | Inr s' \<Rightarrow> clicks s' cs)"

text \<open>
  The states the page can be in: the freshly constructed page, and whatever
  \<^verbatim>\<open>resetGame\<close> and completed calls of \<^verbatim>\<open>onCellClick\<close> make of a reachable state.
  Any index is allowed in a click. A call that throws does so at a read that comes before
  its first write, so it leaves the state it started from.
\<close>

inductive reachable :: "GamePage \<Rightarrow> bool" where
  reachable_init: "reachable initGame"
| reachable_reset: "reachable s \<Longrightarrow> reachable (resetGame s)"
| reachable_click: "reachable s \<Longrightarrow> onCellClick s r c = Inr s' \<Longrightarrow> reachable s'"

section \<open>Properties of states\<close>

text \<open>
  What the class declarations fix and no method changes: the board is a 3 by 3 grid, and
  the two player objects carry the symbols they were constructed with.
\<close>

definition wfBoard :: "Cell list list \<Rightarrow> bool" where
  "wfBoard b \<longleftrightarrow> length b = 3 \<and> list_all (\<lambda>row. length row = 3) b"

definition wellformed :: "GamePage \<Rightarrow> bool" where
  "wellformed s \<longleftrightarrow>
     wfBoard (board s) \<and> symbol (xPlayer s) = X_sym \<and> symbol (oPlayer s) = O_sym"

definition cellAt :: "Cell list list \<Rightarrow> nat \<Rightarrow> nat \<Rightarrow> CellValue" where
  "cellAt b r c = cvalue (b ! r ! c)"

text \<open>The number of cells of the board whose value satisfies \<open>P\<close>.\<close>

definition countCells :: "(CellValue \<Rightarrow> bool) \<Rightarrow> Cell list list \<Rightarrow> nat" where
  "countCells P b = length (filter (\<lambda>c. P (cvalue c)) (concat b))"

text \<open>A selected cell, when there is one, holds the active player's symbol.\<close>

definition selOk :: "GamePage \<Rightarrow> bool" where
  "selOk s \<longleftrightarrow>
     (case selectedCell s of
        None \<Rightarrow> True
      | Some (r, c) \<Rightarrow> readCell (board s) r c = Inr (Sym (symbol (deref s (currentPlayer s)))))"

definition countsOk :: "GamePage \<Rightarrow> bool" where
  "countsOk s \<longleftrightarrow>
     0 \<le> count (xPlayer s) \<and> count (xPlayer s) \<le> 3 \<and>
     0 \<le> count (oPlayer s) \<and> count (oPlayer s) \<le> 3"

definition piecesOk :: "GamePage \<Rightarrow> bool" where
  "piecesOk s \<longleftrightarrow>
     int (countCells (\<lambda>v. v = Sym X_sym) (board s)) = count (xPlayer s) \<and>
     int (countCells (\<lambda>v. v = Sym O_sym) (board s)) = count (oPlayer s)"

definition invariant :: "GamePage \<Rightarrow> bool" where
  "invariant s \<longleftrightarrow> wellformed s \<and> selOk s \<and> countsOk s \<and> piecesOk s"

text \<open>
  The eight lines in the order the specification gives them: three rows, three columns,
  the two diagonals. This list is written from the specification, to be compared with
  what \<open>getLines\<close> returns.
\<close>

definition specLines :: "Cell list list \<Rightarrow> (CellValue \<times> CellValue \<times> CellValue) list" where
  "specLines b =
     [(cellAt b 0 0, cellAt b 0 1, cellAt b 0 2),
      (cellAt b 1 0, cellAt b 1 1, cellAt b 1 2),
      (cellAt b 2 0, cellAt b 2 1, cellAt b 2 2),
      (cellAt b 0 0, cellAt b 1 0, cellAt b 2 0),
      (cellAt b 0 1, cellAt b 1 1, cellAt b 2 1),
      (cellAt b 0 2, cellAt b 1 2, cellAt b 2 2),
      (cellAt b 0 0, cellAt b 1 1, cellAt b 2 2),
      (cellAt b 0 2, cellAt b 1 1, cellAt b 2 0)]"

section \<open>Example states\<close>

text \<open>
  The state after X (0,0), O (1,1), X (0,1), O (0,2), X (2,0), O (1,0), when no line is
  complete and both players have placed three pieces, and X has then selected (0,0).
\<close>

definition exSelected :: GamePage where
  "exSelected =
     \<lparr>board =
        [[Cell (Sym X_sym), Cell (Sym X_sym), Cell (Sym O_sym)],
         [Cell (Sym O_sym), Cell (Sym O_sym), Cell Empty],
         [Cell (Sym X_sym), Cell Empty, Cell Empty]],
      xPlayer = \<lparr>symbol = X_sym, count = 3\<rparr>,
      oPlayer = \<lparr>symbol = O_sym, count = 3\<rparr>,
      currentPlayer = XPlayerRef,
      winner = Empty,
      message = [],
      selectedCell = Some (0, 0)\<rparr>"

text \<open>The state after X (0,0), O (1,1), X (0,1), O (1,0), with X to place.\<close>

definition exPlacing :: GamePage where
  "exPlacing =
     \<lparr>board =
        [[Cell (Sym X_sym), Cell (Sym X_sym), Cell Empty],
         [Cell (Sym O_sym), Cell (Sym O_sym), Cell Empty],
         [Cell Empty, Cell Empty, Cell Empty]],
      xPlayer = \<lparr>symbol = X_sym, count = 2\<rparr>,
      oPlayer = \<lparr>symbol = O_sym, count = 2\<rparr>,
      currentPlayer = XPlayerRef,
      winner = Empty,
      message = [],
      selectedCell = None\<rparr>"

text \<open>The state after X then places at (0,2) and completes the top row.\<close>

definition exWon :: GamePage where
  "exWon =
     \<lparr>board =
        [[Cell (Sym X_sym), Cell (Sym X_sym), Cell (Sym X_sym)],
         [Cell (Sym O_sym), Cell (Sym O_sym), Cell Empty],
         [Cell Empty, Cell Empty, Cell Empty]],
      xPlayer = \<lparr>symbol = X_sym, count = 3\<rparr>,
      oPlayer = \<lparr>symbol = O_sym, count = 2\<rparr>,
      currentPlayer = XPlayerRef,
      winner = Sym X_sym,
      message = ''Player X wins!'',
      selectedCell = None\<rparr>"

section \<open>Cells of a well-formed board\<close>

lemma wfBoard_row: "wfBoard b \<Longrightarrow> i < 3 \<Longrightarrow> length (b ! i) = 3"
  by (simp add: wfBoard_def list_all_length)

lemma inBoard_wf: "wfBoard b \<Longrightarrow> inBoard b r c \<longleftrightarrow> 0 \<le> r \<and> r < 3 \<and> 0 \<le> c \<and> c < 3"
proof -
  assume wf: "wfBoard b"
  have len: "length b = 3" using wf by (simp add: wfBoard_def)
  show ?thesis
  proof (cases "0 \<le> r \<and> r < 3")
    case True
    then have "nat r < 3" by arith
    then have "length (b ! nat r) = 3" using wf by (rule wfBoard_row[rotated])
    then show ?thesis using True len by (simp add: inBoard_def)
  next
    case False
    then show ?thesis using len by (auto simp: inBoard_def)
  qed
qed

lemma wfBoard_updCell: "wfBoard b \<Longrightarrow> wfBoard (updCell b r c v)"
proof -
  assume wf: "wfBoard b"
  have "length ((updCell b r c v) ! n) = 3" if "n < 3" for n
  proof (cases "nat r < length b")
    case True
    then show ?thesis using wf that
      by (cases "n = nat r") (simp_all add: updCell_def wfBoard_def list_all_length)
  next
    case False
    then show ?thesis using wf that
      by (simp add: updCell_def wfBoard_def list_all_length)
  qed
  then show ?thesis using wf
    by (simp add: wfBoard_def list_all_length updCell_def)
qed

lemma inBoard_updCell: "wfBoard b \<Longrightarrow> inBoard (updCell b r c v) r' c' = inBoard b r' c'"
  by (simp add: inBoard_wf wfBoard_updCell)

lemma readCell_updCell:
  "wfBoard b \<Longrightarrow> inBoard b r c \<Longrightarrow> inBoard b r' c' \<Longrightarrow>
   readCell (updCell b r c v) r' c' = (if r' = r \<and> c' = c then Inr v else readCell b r' c')"
  unfolding readCell_def
  apply (simp add: inBoard_updCell)
  apply (auto simp: inBoard_def updCell_def nth_list_update)
  done

lemma readCell_Inr_inBoard: "readCell b r c = Inr v \<Longrightarrow> inBoard b r c"
  by (simp add: readCell_def split: if_splits)

lemma writeCell_inBoard: "inBoard b r c \<Longrightarrow> writeCell b r c v = Inr (updCell b r c v)"
  by (simp add: writeCell_def)

section \<open>The win detector on a well-formed board\<close>

lemma readCell_wf:
  "wfBoard b \<Longrightarrow> 0 \<le> r \<Longrightarrow> r < 3 \<Longrightarrow> 0 \<le> c \<Longrightarrow> c < 3 \<Longrightarrow>
   readCell b r c = Inr (cellAt b (nat r) (nat c))"
  by (simp add: readCell_def inBoard_wf cellAt_def)

lemma triple_wf:
  "wfBoard b \<Longrightarrow> inBoard b (fst p0) (snd p0) \<Longrightarrow> inBoard b (fst p1) (snd p1) \<Longrightarrow>
   inBoard b (fst p2) (snd p2) \<Longrightarrow>
   triple b p0 p1 p2 =
     Inr (cellAt b (nat (fst p0)) (nat (snd p0)), cellAt b (nat (fst p1)) (nat (snd p1)),
          cellAt b (nat (fst p2)) (nat (snd p2)))"
  by (simp add: triple_def readCell_def cellAt_def)

lemma getLines_wf:
  "wfBoard b \<Longrightarrow>
   getLines b =
     Inr [(cellAt b 0 0, cellAt b 0 1, cellAt b 0 2),
          (cellAt b 1 0, cellAt b 1 1, cellAt b 1 2),
          (cellAt b 2 0, cellAt b 2 1, cellAt b 2 2),
          (cellAt b 0 0, cellAt b 1 0, cellAt b 2 0),
          (cellAt b 0 1, cellAt b 1 1, cellAt b 2 1),
          (cellAt b 0 2, cellAt b 1 2, cellAt b 2 2),
          (cellAt b 0 0, cellAt b 1 1, cellAt b 2 2),
          (cellAt b 0 2, cellAt b 1 1, cellAt b 2 0)]"
  by (simp add: getLines_def triple_wf inBoard_wf)

lemma checkLines_find:
  "checkLines ls s =
     (case find lineWins ls of
        None \<Rightarrow> s
      | Some l \<Rightarrow> s\<lparr>winner := fst l, message := winMessage (fst l)\<rparr>)"
  by (induction ls) simp_all

lemma checkLines_fields:
  "board (checkLines ls s) = board s"
  "xPlayer (checkLines ls s) = xPlayer s"
  "oPlayer (checkLines ls s) = oPlayer s"
  "currentPlayer (checkLines ls s) = currentPlayer s"
  "selectedCell (checkLines ls s) = selectedCell s"
  by (induction ls) simp_all

lemma checkWinner_total: "wfBoard (board s) \<Longrightarrow> \<exists>s'. checkWinner s = Inr s'"
  by (simp add: checkWinner_def getLines_wf)

lemma checkWinner_fields:
  assumes "checkWinner s = Inr s'"
  shows "board s' = board s" "xPlayer s' = xPlayer s" "oPlayer s' = oPlayer s"
    "currentPlayer s' = currentPlayer s" "selectedCell s' = selectedCell s"
  using assms by (auto simp: checkWinner_def checkLines_fields split: sum.splits)

lemma checkAndSwitch_total: "wfBoard (board s) \<Longrightarrow> \<exists>s'. checkAndSwitch s = Inr s'"
  using checkWinner_total[of s] by (auto simp: checkAndSwitch_def)

lemma checkAndSwitch_fields:
  assumes "checkAndSwitch s = Inr s'"
  shows "board s' = board s" "xPlayer s' = xPlayer s" "oPlayer s' = oPlayer s"
    "selectedCell s' = selectedCell s"
    "currentPlayer s' =
       (if winner s' = Empty
        then (if symbol (deref s (currentPlayer s)) = X_sym then OPlayerRef else XPlayerRef)
        else currentPlayer s)"
  using assms checkWinner_fields[of s]
  by (auto simp: checkAndSwitch_def switchPlayer_def deref_def split: sum.splits if_splits PlayerRef.splits)

section \<open>Counting cells\<close>

lemma filter_length_update:
  "i < length xs \<Longrightarrow>
   int (length (filter Q (xs[i := y]))) =
     int (length (filter Q xs)) - (if Q (xs ! i) then 1 else 0) + (if Q y then 1 else 0)"
proof (induction xs arbitrary: i)
  case Nil
  then show ?case by simp
next
  case (Cons x xs)
  show ?case
  proof (cases i)
    case 0
    then show ?thesis by simp
  next
    case (Suc n)
    with Cons.prems have "n < length xs" by simp
    from Cons.IH[OF this] show ?thesis using Suc by (auto split: if_splits)
  qed
qed

lemma concat_filter_length_update:
  "i < length xss \<Longrightarrow>
   int (length (filter Q (concat (xss[i := ys])))) =
     int (length (filter Q (concat xss))) - int (length (filter Q (xss ! i)))
       + int (length (filter Q ys))"
proof (induction xss arbitrary: i)
  case Nil
  then show ?case by simp
next
  case (Cons xs xss)
  then show ?case by (cases i) simp_all
qed

lemma countCells_updCell:
  assumes "wfBoard b" "inBoard b r c"
  shows "int (countCells P (updCell b r c v)) =
           int (countCells P b) - (if P (cellAt b (nat r) (nat c)) then 1 else 0)
             + (if P v then 1 else 0)"
proof -
  have r: "nat r < length b" and c: "nat c < length (b ! nat r)"
    using assms(2) by (auto simp: inBoard_def)
  show ?thesis
    unfolding countCells_def updCell_def
    by (simp add: concat_filter_length_update[OF r] filter_length_update[OF c] cellAt_def)
qed

section \<open>What the handlers do\<close>

lemma handlePlace_place:
  assumes "readCell (board s) r c = Inr Empty" "count (deref s (currentPlayer s)) < 3"
  shows "handlePlace s r c =
           checkAndSwitch (incrementCount
             (s\<lparr>board := updCell (board s) r c (Sym (symbol (deref s (currentPlayer s))))\<rparr>))"
  using assms readCell_Inr_inBoard[OF assms(1)]
  by (simp add: handlePlace_def writeCell_inBoard)

lemma handlePlace_noop:
  assumes "readCell (board s) r c = Inr v" "v \<noteq> Empty \<or> 3 \<le> count (deref s (currentPlayer s))"
  shows "handlePlace s r c = Inr s"
  using assms by (auto simp: handlePlace_def)

lemma handleMove_move:
  assumes "wfBoard (board s)" "selectedCell s = Some (row, col)"
    "readCell (board s) r c = Inr Empty" "readCell (board s) row col = Inr w"
  shows "handleMove s r c =
           checkAndSwitch
             (s\<lparr>board := updCell (updCell (board s) r c w) row col Empty, selectedCell := None\<rparr>)"
  using assms readCell_Inr_inBoard[OF assms(3)] readCell_Inr_inBoard[OF assms(4)]
  by (simp add: handleMove_def writeCell_inBoard inBoard_updCell)

lemma countCells_write:
  assumes "wfBoard b" "readCell b r c = Inr old"
  shows "int (countCells P (updCell b r c v)) =
           int (countCells P b) - (if P old then 1 else 0) + (if P v then 1 else 0)"
proof -
  have ib: "inBoard b r c" using assms(2) by (rule readCell_Inr_inBoard)
  then have "old = cellAt b (nat r) (nat c)"
    using assms(2) by (simp add: readCell_def cellAt_def)
  then show ?thesis using countCells_updCell[OF assms(1) ib] by simp
qed

section \<open>The invariant of reachable states\<close>

lemma invariant_initGame: "invariant initGame"
  by (simp add: invariant_def wellformed_def wfBoard_def selOk_def countsOk_def piecesOk_def
      initGame_def emptyBoard_def countCells_def)

lemma invariant_resetGame: "wellformed s \<Longrightarrow> invariant (resetGame s)"
  by (simp add: invariant_def wellformed_def wfBoard_def selOk_def countsOk_def piecesOk_def
      resetGame_def emptyBoard_def countCells_def)

lemma invariant_select:
  assumes "invariant s" "readCell (board s) r c = Inr (Sym (symbol (deref s (currentPlayer s))))"
  shows "invariant (s\<lparr>selectedCell := Some (r, c)\<rparr>)"
  using assms
  by (cases "currentPlayer s")
     (simp_all add: invariant_def wellformed_def selOk_def countsOk_def piecesOk_def deref_def)

lemma invariant_place:
  assumes inv: "invariant s" and sel: "selectedCell s = None"
    and rd: "readCell (board s) r c = Inr Empty"
    and cnt: "count (deref s (currentPlayer s)) < 3"
    and res: "handlePlace s r c = Inr s'"
  shows "invariant s'"
proof -
  let ?sym = "symbol (deref s (currentPlayer s))"
  let ?b = "updCell (board s) r c (Sym ?sym)"
  let ?s1 = "incrementCount (s\<lparr>board := ?b\<rparr>)"
  have wf: "wfBoard (board s)" using inv by (simp add: invariant_def wellformed_def)
  have cs: "checkAndSwitch ?s1 = Inr s'"
    using res handlePlace_place[OF rd cnt] by simp
  note f = checkAndSwitch_fields[OF cs]
  have b1: "board ?s1 = ?b" by (simp add: incrementCount_def split: PlayerRef.splits)
  have wf': "wfBoard (board s')" using f(1) b1 wf by (simp add: wfBoard_updCell)
  have cX: "int (countCells (\<lambda>v. v = Sym X_sym) ?b) =
              int (countCells (\<lambda>v. v = Sym X_sym) (board s)) + (if ?sym = X_sym then 1 else 0)"
    using countCells_write[OF wf rd, of "\<lambda>v. v = Sym X_sym" "Sym ?sym"] by simp
  have cO: "int (countCells (\<lambda>v. v = Sym O_sym) ?b) =
              int (countCells (\<lambda>v. v = Sym O_sym) (board s)) + (if ?sym = O_sym then 1 else 0)"
    using countCells_write[OF wf rd, of "\<lambda>v. v = Sym O_sym" "Sym ?sym"] by simp
  show ?thesis
    using inv sel cnt f b1 wf' cX cO
    by (cases "currentPlayer s")
       (simp_all add: invariant_def wellformed_def selOk_def countsOk_def piecesOk_def
          deref_def incrementCount_def)
qed

lemma invariant_move:
  assumes inv: "invariant s" and sel: "selectedCell s = Some (row, col)"
    and rd: "readCell (board s) r c = Inr Empty"
    and res: "handleMove s r c = Inr s'"
  shows "invariant s'"
proof -
  let ?w = "Sym (symbol (deref s (currentPlayer s)))"
  let ?b1 = "updCell (board s) r c ?w"
  let ?b2 = "updCell ?b1 row col Empty"
  let ?s1 = "s\<lparr>board := ?b2, selectedCell := None\<rparr>"
  have wf: "wfBoard (board s)" using inv by (simp add: invariant_def wellformed_def)
  have rs: "readCell (board s) row col = Inr ?w"
    using inv sel by (simp add: invariant_def selOk_def)
  have cs: "checkAndSwitch ?s1 = Inr s'"
    using res handleMove_move[OF wf sel rd rs] by simp
  note f = checkAndSwitch_fields[OF cs]
  have wf1: "wfBoard ?b1" using wf by (rule wfBoard_updCell)
  have wf2: "wfBoard ?b2" using wf1 by (rule wfBoard_updCell)
  have ne: "\<not> (row = r \<and> col = c)" using rd rs by auto
  have rs1: "readCell ?b1 row col = Inr ?w"
    using readCell_updCell[OF wf readCell_Inr_inBoard[OF rd] readCell_Inr_inBoard[OF rs]] ne rs
    by simp
  have cnt: "int (countCells P ?b2) = int (countCells P (board s))" if "\<not> P Empty" for P
    using countCells_write[OF wf rd, of P ?w] countCells_write[OF wf1 rs1, of P Empty] that
    by simp
  show ?thesis
    using inv f wf2 cnt[of "\<lambda>v. v = Sym X_sym"] cnt[of "\<lambda>v. v = Sym O_sym"]
    by (simp add: invariant_def wellformed_def selOk_def countsOk_def piecesOk_def)
qed

lemma invariant_onCellClick:
  assumes inv: "invariant s" and res: "onCellClick s r c = Inr s'"
  shows "invariant s'"
proof (cases "winner s \<noteq> Empty")
  case True
  then show ?thesis using inv res by (simp add: onCellClick_def)
next
  case nw: False
  show ?thesis
  proof (cases "selectedCell s")
    case (Some p)
    obtain row col where p: "p = (row, col)" by (cases p)
    have hm: "handleMove s r c = Inr s'" using res nw Some by (simp add: onCellClick_def)
    then obtain v where rd: "readCell (board s) r c = Inr v"
      using Some p by (auto simp: handleMove_def split: sum.splits)
    show ?thesis
    proof (cases "v = Sym (symbol (deref s (currentPlayer s))) \<and> (r \<noteq> row \<or> c \<noteq> col)")
      case True
      then have "s' = s\<lparr>selectedCell := Some (r, c)\<rparr>"
        using hm Some p rd by (auto simp: handleMove_def)
      then show ?thesis using invariant_select[OF inv] rd True by simp
    next
      case nr: False
      show ?thesis
      proof (cases "v = Empty")
        case True
        then show ?thesis using invariant_move[OF inv _ _ hm] Some p rd by simp
      next
        case False
        then have "s' = s" using hm Some p rd nr by (auto simp: handleMove_def)
        then show ?thesis using inv by simp
      qed
    qed
  next
    case None
    show ?thesis
    proof (cases "count (deref s (currentPlayer s)) \<ge> 3")
      case True
      then have os: "onSelectPiece s r c = Inr s'" using res nw None by (simp add: onCellClick_def)
      then obtain v where rd: "readCell (board s) r c = Inr v"
        by (auto simp: onSelectPiece_def split: sum.splits)
      show ?thesis
        using os rd inv invariant_select[OF inv, of r c]
        by (auto simp: onSelectPiece_def split: if_splits)
    next
      case False
      then have hp: "handlePlace s r c = Inr s'" using res nw None by (simp add: onCellClick_def)
      then obtain v where rd: "readCell (board s) r c = Inr v"
        by (auto simp: handlePlace_def split: sum.splits)
      show ?thesis
      proof (cases "v = Empty")
        case True
        then show ?thesis using invariant_place[OF inv None _ _ hp] rd False by simp
      next
        case False
        then have "s' = s" using hp rd handlePlace_noop[OF rd] by simp
        then show ?thesis using inv by simp
      qed
    qed
  qed
qed

lemma reachable_invariant: "reachable s \<Longrightarrow> invariant s"
proof (induction rule: reachable.induct)
  case reachable_init
  show ?case by (rule invariant_initGame)
next
  case (reachable_reset s)
  then have "wellformed s" by (simp add: invariant_def)
  then show ?case by (rule invariant_resetGame)
next
  case (reachable_click s r c s')
  then show ?case by (blast intro: invariant_onCellClick)
qed

section \<open>Claims\<close>

subsection \<open>The win detector\<close>

text \<open>
  C1. On a 3 by 3 board \<open>getLines\<close> returns exactly eight triples of the current cell
  values, in the order three rows, three columns, two diagonals. A triple wins if and
  only if its three values are equal and not empty. \<open>checkWinner\<close> takes the first
  winning triple in that order, sets the winner to its symbol and the message to
  "Player X wins!" or "Player O wins!", and looks no further; when no triple wins it
  returns the state as it was, winner and message included.
\<close>

theorem checkWinner_first_line:
  assumes "wfBoard (board s)"
  shows "getLines (board s) = Inr (specLines (board s))
    \<and> length (specLines (board s)) = 8
    \<and> (\<forall>a b c. lineWins (a, b, c) \<longleftrightarrow> a = b \<and> b = c \<and> a \<noteq> Empty)
    \<and> checkWinner s =
        Inr (case find lineWins (specLines (board s)) of
               None \<Rightarrow> s
             | Some (v, _, _) \<Rightarrow> s\<lparr>winner := v, message := winMessage v\<rparr>)
    \<and> winMessage (Sym X_sym) = ''Player X wins!''
    \<and> winMessage (Sym O_sym) = ''Player O wins!''"
proof -
  have gl: "getLines (board s) = Inr (specLines (board s))"
    using assms by (simp add: getLines_wf specLines_def)
  have cw: "checkWinner s =
        Inr (case find lineWins (specLines (board s)) of
               None \<Rightarrow> s
             | Some (v, _, _) \<Rightarrow> s\<lparr>winner := v, message := winMessage v\<rparr>)"
    by (simp add: checkWinner_def gl checkLines_find split: option.splits prod.splits)
  have lw: "\<forall>a b c. lineWins (a, b, c) \<longleftrightarrow> a = b \<and> b = c \<and> a \<noteq> Empty"
    by (auto simp: lineWins_def)
  have msg: "winMessage (Sym X_sym) = ''Player X wins!''"
    "winMessage (Sym O_sym) = ''Player O wins!''"
    by (simp_all add: winMessage_def valueString_def)
  show ?thesis using gl cw lw msg by (simp add: specLines_def)
qed

text \<open>
  On the board of \<open>exWon\<close> with winner and message still unset, the detector finds the
  top row and produces \<open>exWon\<close>; on \<open>exPlacing\<close>, where no line is complete, it changes
  nothing.
\<close>

theorem checkWinner_first_line_witness:
  "wfBoard (board (exWon\<lparr>winner := Empty, message := []\<rparr>))
   \<and> checkWinner (exWon\<lparr>winner := Empty, message := []\<rparr>) = Inr exWon
   \<and> checkWinner exPlacing = Inr exPlacing"
proof -
  have w1: "wfBoard (board (exWon\<lparr>winner := Empty, message := []\<rparr>))"
    by (simp add: wfBoard_def exWon_def)
  have w2: "wfBoard (board exPlacing)"
    by (simp add: wfBoard_def exPlacing_def)
  show ?thesis
    using w1 checkWinner_first_line[OF w1] checkWinner_first_line[OF w2]
    by (simp add: exWon_def exPlacing_def specLines_def cellAt_def lineWins_def winMessage_def
        valueString_def)
qed

subsection \<open>Clicks after a win\<close>

text \<open>
  C4. In every state whose winner is set, \<open>onCellClick\<close> returns the state unchanged,
  whatever the indices: board, both counts, active player, winner, message and selected
  cell are all as before.
\<close>

theorem click_after_win_noop:
  "winner s \<noteq> Empty \<Longrightarrow> onCellClick s rowIndex colIndex = Inr s"
  by (simp add: onCellClick_def)

theorem click_after_win_noop_witness:
  "winner exWon \<noteq> Empty \<and> onCellClick exWon 2 2 = Inr exWon
   \<and> onCellClick exWon 7 (-1) = Inr exWon"
proof -
  have w: "winner exWon \<noteq> Empty" by (simp add: exWon_def)
  show ?thesis
    using w click_after_win_noop[OF w, of 2 2] click_after_win_noop[OF w, of 7 "-1"] by simp
qed

subsection \<open>Reset\<close>

text \<open>
  C9. \<open>resetGame\<close>, called in any state, leaves nine empty cells, both counts 0, the
  X player active, and winner, message and selected cell cleared. Since the two player
  objects keep the symbols they were constructed with, the result is exactly the
  initial state.
\<close>

theorem resetGame_restores_initial:
  "board (resetGame s) =
     [[Cell Empty, Cell Empty, Cell Empty],
      [Cell Empty, Cell Empty, Cell Empty],
      [Cell Empty, Cell Empty, Cell Empty]]
   \<and> count (xPlayer (resetGame s)) = 0
   \<and> count (oPlayer (resetGame s)) = 0
   \<and> currentPlayer (resetGame s) = XPlayerRef
   \<and> deref (resetGame s) (currentPlayer (resetGame s)) = (xPlayer s)\<lparr>count := 0\<rparr>
   \<and> winner (resetGame s) = Empty
   \<and> message (resetGame s) = []
   \<and> selectedCell (resetGame s) = None
   \<and> (symbol (xPlayer s) = X_sym \<and> symbol (oPlayer s) = O_sym \<longrightarrow> resetGame s = initGame)"
  by (simp add: resetGame_def initGame_def emptyBoard_def deref_def)

theorem resetGame_restores_initial_witness:
  "symbol (xPlayer exWon) = X_sym \<and> symbol (oPlayer exWon) = O_sym
   \<and> resetGame exWon = initGame \<and> resetGame exSelected = initGame"
  using resetGame_restores_initial[of exWon] resetGame_restores_initial[of exSelected]
  by (simp add: exWon_def exSelected_def)

subsection \<open>Placement\<close>

lemma readCell_updCell_same:
  "wfBoard b \<Longrightarrow> inBoard b r c \<Longrightarrow> readCell (updCell b r c v) r c = Inr v"
  by (simp add: readCell_updCell)

lemma readCell_updCell_other:
  assumes "wfBoard b" "inBoard b r c" "(r', c') \<noteq> (r, c)"
  shows "readCell (updCell b r c v) r' c' = readCell b r' c'"
proof (cases "inBoard b r' c'")
  case True
  then show ?thesis using assms by (auto simp: readCell_updCell)
next
  case False
  then show ?thesis using assms(1) by (simp add: readCell_def inBoard_updCell)
qed

lemma switchPlayer_wf:
  "wellformed s \<Longrightarrow> switchPlayer s = s\<lparr>currentPlayer := otherRef (currentPlayer s)\<rparr>"
  by (cases "currentPlayer s") (simp_all add: switchPlayer_def wellformed_def deref_def otherRef_def)

lemma checkWinner_wellformed:
  "checkWinner s = Inr s' \<Longrightarrow> wellformed s \<Longrightarrow> wellformed s'"
  using checkWinner_fields[of s s'] by (simp add: wellformed_def)

lemma checkAndSwitch_wf:
  assumes "wellformed s"
  shows "\<exists>checked. checkWinner s = Inr checked
     \<and> checkAndSwitch s =
         Inr (if winner checked = Empty
              then checked\<lparr>currentPlayer := otherRef (currentPlayer s)\<rparr> else checked)"
proof -
  obtain checked where c: "checkWinner s = Inr checked"
    using checkWinner_total[of s] assms by (auto simp: wellformed_def)
  have "wellformed checked" using c assms by (rule checkWinner_wellformed)
  then have "switchPlayer checked = checked\<lparr>currentPlayer := otherRef (currentPlayer s)\<rparr>"
    using checkWinner_fields(4)[OF c] by (simp add: switchPlayer_wf)
  then show ?thesis using c by (simp add: checkAndSwitch_def)
qed

lemma deref_incrementCount:
  "count (deref (incrementCount s) (currentPlayer s)) = count (deref s (currentPlayer s)) + 1"
  "deref (incrementCount s) (otherRef (currentPlayer s)) = deref s (otherRef (currentPlayer s))"
  by (cases "currentPlayer s"; simp add: incrementCount_def deref_def otherRef_def)+

text \<open>
  C2. In a state with no winner and no selected cell, where the active player has placed
  fewer than three pieces and the clicked cell is empty, \<open>onCellClick\<close> writes the active
  player's symbol into that cell and no other, adds one to that player's count and leaves
  the other player's count alone, runs \<open>checkWinner\<close> on the result, and hands the
  turn to the other player exactly when no winner came out of it.
  The state is a state of the class: a 3 by 3 board and the two player objects with
  their symbols.
\<close>

theorem placement_step:
  assumes "wellformed s" "winner s = Empty" "selectedCell s = None"
    "count (deref s (currentPlayer s)) < 3" "readCell (board s) rowIndex colIndex = Inr Empty"
  shows "\<exists>checked s'.
      checkWinner (incrementCount
         (s\<lparr>board := updCell (board s) rowIndex colIndex
                        (Sym (symbol (deref s (currentPlayer s))))\<rparr>)) = Inr checked
    \<and> onCellClick s rowIndex colIndex = Inr s'
    \<and> s' = (if winner checked = Empty
            then checked\<lparr>currentPlayer := otherRef (currentPlayer s)\<rparr> else checked)
    \<and> readCell (board s') rowIndex colIndex = Inr (Sym (symbol (deref s (currentPlayer s))))
    \<and> (\<forall>r c. (r, c) \<noteq> (rowIndex, colIndex) \<longrightarrow>
          readCell (board s') r c = readCell (board s) r c)
    \<and> count (deref s' (currentPlayer s)) = count (deref s (currentPlayer s)) + 1
    \<and> count (deref s' (otherRef (currentPlayer s))) =
        count (deref s (otherRef (currentPlayer s)))
    \<and> currentPlayer s' =
        (if winner s' = Empty then otherRef (currentPlayer s) else currentPlayer s)"
proof -
  let ?sym = "symbol (deref s (currentPlayer s))"
  let ?b = "updCell (board s) rowIndex colIndex (Sym ?sym)"
  let ?placed = "incrementCount (s\<lparr>board := ?b\<rparr>)"
  have wfb: "wfBoard (board s)" using assms(1) by (simp add: wellformed_def)
  have ib: "inBoard (board s) rowIndex colIndex" using assms(5) by (rule readCell_Inr_inBoard)
  have bp: "board ?placed = ?b" and cp: "currentPlayer ?placed = currentPlayer s"
    by (simp_all add: incrementCount_def split: PlayerRef.splits)
  have wfp: "wellformed ?placed"
    using assms(1)
    by (simp add: wellformed_def incrementCount_def wfBoard_updCell split: PlayerRef.splits)
  obtain checked where ch: "checkWinner ?placed = Inr checked"
    and cs: "checkAndSwitch ?placed =
         Inr (if winner checked = Empty
              then checked\<lparr>currentPlayer := otherRef (currentPlayer s)\<rparr> else checked)"
    using checkAndSwitch_wf[OF wfp] cp by auto
  define s' where "s' = (if winner checked = Empty
              then checked\<lparr>currentPlayer := otherRef (currentPlayer s)\<rparr> else checked)"
  have click: "onCellClick s rowIndex colIndex = Inr s'"
    using assms handlePlace_place[OF assms(5) assms(4)] cs by (simp add: onCellClick_def s'_def)
  note f = checkWinner_fields[OF ch]
  have b': "board s' = ?b" and x': "xPlayer s' = xPlayer ?placed"
    and o': "oPlayer s' = oPlayer ?placed" and w': "winner s' = winner checked"
    using f bp by (simp_all add: s'_def)
  have d': "deref s' p = deref ?placed p" for p
    using x' o' by (simp add: deref_def split: PlayerRef.splits)
  have d0: "deref (s\<lparr>board := ?b\<rparr>) p = deref s p" for p
    by (simp add: deref_def split: PlayerRef.splits)
  have c0: "currentPlayer (s\<lparr>board := ?b\<rparr>) = currentPlayer s" by simp
  have c1: "count (deref s' (currentPlayer s)) = count (deref s (currentPlayer s)) + 1"
    using deref_incrementCount(1)[of "s\<lparr>board := ?b\<rparr>"] by (simp only: d' d0 c0)
  have c2: "count (deref s' (otherRef (currentPlayer s))) =
        count (deref s (otherRef (currentPlayer s)))"
    using deref_incrementCount(2)[of "s\<lparr>board := ?b\<rparr>"] by (simp only: d' d0 c0)
  have r1: "readCell (board s') rowIndex colIndex = Inr (Sym ?sym)"
    by (simp only: b' readCell_updCell_same[OF wfb ib])
  have r2: "\<forall>r c. (r, c) \<noteq> (rowIndex, colIndex) \<longrightarrow>
          readCell (board s') r c = readCell (board s) r c"
    by (simp only: b') (simp add: readCell_updCell_other[OF wfb ib])
  have cur: "currentPlayer s' =
        (if winner s' = Empty then otherRef (currentPlayer s) else currentPlayer s)"
    using f(4) cp by (simp add: s'_def)
  show ?thesis
    using ch click s'_def r1 r2 c1 c2 cur by blast
qed

text \<open>
  In \<open>exPlacing\<close>, X placing at (0,2) completes the top row and gives \<open>exWon\<close>, with X
  still active; X placing at (2,2) completes nothing and passes the turn to O.
\<close>

theorem placement_step_witness:
  "wellformed exPlacing \<and> winner exPlacing = Empty \<and> selectedCell exPlacing = None
   \<and> count (deref exPlacing (currentPlayer exPlacing)) < 3
   \<and> readCell (board exPlacing) 0 2 = Inr Empty
   \<and> readCell (board exPlacing) 2 2 = Inr Empty
   \<and> onCellClick exPlacing 0 2 = Inr exWon
   \<and> (\<exists>s'. onCellClick exPlacing 2 2 = Inr s' \<and> currentPlayer s' = OPlayerRef
         \<and> count (xPlayer s') = 3 \<and> count (oPlayer s') = 2
         \<and> readCell (board s') 2 2 = Inr (Sym X_sym))"
proof -
  have h: "wellformed exPlacing" "winner exPlacing = Empty" "selectedCell exPlacing = None"
    "count (deref exPlacing (currentPlayer exPlacing)) < 3"
    by (simp_all add: exPlacing_def wellformed_def wfBoard_def deref_def)
  have r1: "readCell (board exPlacing) 0 2 = Inr Empty"
    and r2: "readCell (board exPlacing) 2 2 = Inr Empty"
    by (simp_all add: exPlacing_def readCell_def inBoard_def)
  show ?thesis
    using h r1 r2 placement_step[OF h r1] placement_step[OF h r2]
    by (simp add: exPlacing_def exWon_def onCellClick_def handlePlace_def readCell_def
        writeCell_def inBoard_def updCell_def deref_def incrementCount_def checkAndSwitch_def
        checkWinner_def getLines_def triple_def lineWins_def switchPlayer_def winMessage_def
        valueString_def)
qed

subsection \<open>Movement\<close>

lemma countCells_move:
  assumes wf: "wfBoard b" and rd: "readCell b r c = Inr Empty" and rs: "readCell b row col = Inr w"
  shows "countCells P (updCell (updCell b r c w) row col Empty) = countCells P b"
proof (cases "row = r \<and> col = c")
  case True
  then have w: "w = Empty" using rd rs by simp
  have ib: "inBoard b r c" using rd by (rule readCell_Inr_inBoard)
  have wf1: "wfBoard (updCell b r c Empty)" using wf by (rule wfBoard_updCell)
  have r1: "readCell (updCell b r c Empty) r c = Inr Empty"
    using readCell_updCell[OF wf ib ib] by simp
  have "int (countCells P (updCell (updCell b r c Empty) r c Empty)) = int (countCells P b)"
    using countCells_write[OF wf rd, of P Empty] countCells_write[OF wf1 r1, of P Empty]
    by simp
  then show ?thesis using True w by simp
next
  case False
  have wf1: "wfBoard (updCell b r c w)" using wf by (rule wfBoard_updCell)
  have r1: "readCell (updCell b r c w) row col = Inr w"
    using readCell_updCell[OF wf readCell_Inr_inBoard[OF rd] readCell_Inr_inBoard[OF rs]] False rs
    by simp
  have "int (countCells P (updCell (updCell b r c w) row col Empty)) = int (countCells P b)"
    using countCells_write[OF wf rd, of P w] countCells_write[OF wf1 r1, of P Empty]
    by simp
  then show ?thesis by simp
qed

text \<open>
  C3. In a state with no winner and a selected cell S, a click on an empty cell copies
  the active player's symbol into it, empties S, clears the selection, runs
  \<open>checkWinner\<close> and hands the turn over exactly when there is no winner. Both player
  objects, and so both counts, are unchanged, and so is the number of occupied cells.
  The code copies the value stored at S; that it is the active player's symbol is the
  property \<open>selOk\<close> of the state, which every reachable state has
  (\<open>reachable_invariant\<close>).
\<close>

theorem movement_step:
  assumes "wellformed s" "selOk s" "winner s = Empty" "selectedCell s = Some (row, col)"
    "readCell (board s) rowIndex colIndex = Inr Empty"
  shows "\<exists>checked s'.
      checkWinner
         (s\<lparr>board := updCell (updCell (board s) rowIndex colIndex
                                  (Sym (symbol (deref s (currentPlayer s))))) row col Empty,
            selectedCell := None\<rparr>) = Inr checked
    \<and> onCellClick s rowIndex colIndex = Inr s'
    \<and> s' = (if winner checked = Empty
            then checked\<lparr>currentPlayer := otherRef (currentPlayer s)\<rparr> else checked)
    \<and> readCell (board s') rowIndex colIndex = Inr (Sym (symbol (deref s (currentPlayer s))))
    \<and> readCell (board s') row col = Inr Empty
    \<and> (\<forall>r c. (r, c) \<noteq> (rowIndex, colIndex) \<and> (r, c) \<noteq> (row, col) \<longrightarrow>
          readCell (board s') r c = readCell (board s) r c)
    \<and> selectedCell s' = None
    \<and> xPlayer s' = xPlayer s \<and> oPlayer s' = oPlayer s
    \<and> countCells (\<lambda>v. v \<noteq> Empty) (board s') = countCells (\<lambda>v. v \<noteq> Empty) (board s)
    \<and> currentPlayer s' =
        (if winner s' = Empty then otherRef (currentPlayer s) else currentPlayer s)"
proof -
  let ?w = "Sym (symbol (deref s (currentPlayer s)))"
  let ?b1 = "updCell (board s) rowIndex colIndex ?w"
  let ?b2 = "updCell ?b1 row col Empty"
  let ?moved = "s\<lparr>board := ?b2, selectedCell := None\<rparr>"
  have wfb: "wfBoard (board s)" using assms(1) by (simp add: wellformed_def)
  have rs: "readCell (board s) row col = Inr ?w"
    using assms(2,4) by (simp add: selOk_def)
  have ib: "inBoard (board s) rowIndex colIndex" using assms(5) by (rule readCell_Inr_inBoard)
  have isel: "inBoard (board s) row col" using rs by (rule readCell_Inr_inBoard)
  have ne: "(rowIndex, colIndex) \<noteq> (row, col)" using assms(5) rs by auto
  have wf1: "wfBoard ?b1" using wfb by (rule wfBoard_updCell)
  have is1: "inBoard ?b1 row col" using isel wfb by (simp add: inBoard_updCell)
  have wfm: "wellformed ?moved"
    using assms(1) by (simp add: wellformed_def wfBoard_updCell)
  obtain checked where ch: "checkWinner ?moved = Inr checked"
    and cs: "checkAndSwitch ?moved =
         Inr (if winner checked = Empty
              then checked\<lparr>currentPlayer := otherRef (currentPlayer s)\<rparr> else checked)"
    using checkAndSwitch_wf[OF wfm] by auto
  define s' where "s' = (if winner checked = Empty
              then checked\<lparr>currentPlayer := otherRef (currentPlayer s)\<rparr> else checked)"
  have click: "onCellClick s rowIndex colIndex = Inr s'"
    using assms(3,4) handleMove_move[OF wfb assms(4,5) rs] cs
    by (simp add: onCellClick_def s'_def)
  note f = checkWinner_fields[OF ch]
  have b': "board s' = ?b2" and x': "xPlayer s' = xPlayer s"
    and o': "oPlayer s' = oPlayer s" and sel': "selectedCell s' = None"
    using f by (simp_all add: s'_def)
  have r1: "readCell (board s') rowIndex colIndex = Inr ?w"
    using readCell_updCell_other[OF wf1 is1 ne, of Empty] readCell_updCell_same[OF wfb ib, of ?w]
    by (simp only: b')
  have r2: "readCell (board s') row col = Inr Empty"
    by (simp only: b' readCell_updCell_same[OF wf1 is1])
  have r3: "\<forall>r c. (r, c) \<noteq> (rowIndex, colIndex) \<and> (r, c) \<noteq> (row, col) \<longrightarrow>
          readCell (board s') r c = readCell (board s) r c"
    by (simp only: b') (simp add: readCell_updCell_other[OF wf1 is1] readCell_updCell_other[OF wfb ib])
  have cnt: "countCells (\<lambda>v. v \<noteq> Empty) (board s') = countCells (\<lambda>v. v \<noteq> Empty) (board s)"
    by (simp only: b' countCells_move[OF wfb assms(5) rs])
  have cur: "currentPlayer s' =
        (if winner s' = Empty then otherRef (currentPlayer s) else currentPlayer s)"
    using f(4) by (simp add: s'_def)
  show ?thesis
    using ch click s'_def r1 r2 r3 sel' x' o' cnt cur by blast
qed

text \<open>
  In \<open>exSelected\<close>, where X has selected (0,0), a click on the empty cell (1,2) moves
  the piece there and passes the turn to O.
\<close>

theorem movement_step_witness:
  "wellformed exSelected \<and> selOk exSelected \<and> winner exSelected = Empty
   \<and> selectedCell exSelected = Some (0, 0)
   \<and> readCell (board exSelected) 1 2 = Inr Empty
   \<and> onCellClick exSelected 1 2 =
       Inr (exSelected
          \<lparr>board :=
             [[Cell Empty, Cell (Sym X_sym), Cell (Sym O_sym)],
              [Cell (Sym O_sym), Cell (Sym O_sym), Cell (Sym X_sym)],
              [Cell (Sym X_sym), Cell Empty, Cell Empty]],
           currentPlayer := OPlayerRef,
           selectedCell := None\<rparr>)"
proof -
  have h: "wellformed exSelected" "selOk exSelected" "winner exSelected = Empty"
    "selectedCell exSelected = Some (0, 0)"
    by (simp_all add: exSelected_def wellformed_def wfBoard_def selOk_def deref_def
        readCell_def inBoard_def)
  have r: "readCell (board exSelected) 1 2 = Inr Empty"
    by (simp add: exSelected_def readCell_def inBoard_def)
  show ?thesis
    using h r movement_step[OF h r]
    by (simp add: exSelected_def onCellClick_def handleMove_def readCell_def
        writeCell_def inBoard_def updCell_def deref_def checkAndSwitch_def
        checkWinner_def getLines_def triple_def lineWins_def switchPlayer_def)
qed

subsection \<open>Reachable example states\<close>

lemma reachable_clicks:
  "reachable s \<Longrightarrow> clicks s cs = Inr s' \<Longrightarrow> reachable s'"
proof (induction cs arbitrary: s)
  case Nil
  then show ?case by simp
next
  case (Cons p cs)
  obtain r c where p: "p = (r, c)" by (cases p)
  from Cons.prems(2) obtain s1 where s1: "onCellClick s r c = Inr s1" and rest: "clicks s1 cs = Inr s'"
    by (auto simp: p split: sum.splits)
  have "reachable s1" using Cons.prems(1) s1 by (rule reachable_click)
  then show ?case using rest by (rule Cons.IH)
qed

lemmas eval_defs =
  initGame_def emptyBoard_def onCellClick_def handlePlace_def
  handleMove_def onSelectPiece_def readCell_def writeCell_def inBoard_def updCell_def
  deref_def incrementCount_def checkAndSwitch_def checkWinner_def getLines_def triple_def
  lineWins_def switchPlayer_def winMessage_def valueString_def

lemma clicks_exSelected:
  "clicks initGame [(0, 0), (1, 1), (0, 1), (0, 2), (2, 0), (1, 0), (0, 0)] = Inr exSelected"
  by (simp add: exSelected_def eval_defs)

lemma clicks_exPlacing:
  "clicks initGame [(0, 0), (1, 1), (0, 1), (1, 0)] = Inr exPlacing"
  by (simp add: exPlacing_def eval_defs)

lemma clicks_exWon:
  "clicks initGame [(0, 0), (1, 1), (0, 1), (1, 0), (0, 2)] = Inr exWon"
  by (simp add: exWon_def eval_defs)

lemma reachable_exSelected: "reachable exSelected"
  using reachable_init clicks_exSelected by (rule reachable_clicks)

lemma reachable_exPlacing: "reachable exPlacing"
  using reachable_init clicks_exPlacing by (rule reachable_clicks)

lemma reachable_exWon: "reachable exWon"
  using reachable_init clicks_exWon by (rule reachable_clicks)

subsection \<open>Bounds on the placed counts\<close>

text \<open>
  C7. In every reachable state each player's count lies between 0 and 3 and the two
  counts add up to at most 6. \<open>handlePlace\<close> checks the bound itself: called with an
  active player whose count is 3 or more, it changes nothing, whatever the dispatcher
  did before (it returns the state as it is, or throws at the read of a cell outside the
  board).
\<close>

theorem placed_counts_bounded:
  "(reachable s \<longrightarrow>
      0 \<le> count (xPlayer s) \<and> count (xPlayer s) \<le> 3
    \<and> 0 \<le> count (oPlayer s) \<and> count (oPlayer s) \<le> 3
    \<and> count (xPlayer s) + count (oPlayer s) \<le> 6)
   \<and> (3 \<le> count (deref s (currentPlayer s)) \<longrightarrow>
        handlePlace s rowIndex colIndex =
          (case readCell (board s) rowIndex colIndex of Inl e \<Rightarrow> Inl e | Inr v \<Rightarrow> Inr s))"
proof -
  have "countsOk s" if "reachable s"
    using reachable_invariant[OF that] by (simp add: invariant_def)
  moreover have "handlePlace s rowIndex colIndex =
          (case readCell (board s) rowIndex colIndex of Inl e \<Rightarrow> Inl e | Inr v \<Rightarrow> Inr s)"
    if "3 \<le> count (deref s (currentPlayer s))"
    using that by (simp add: handlePlace_def split: sum.splits)
  ultimately show ?thesis by (auto simp: countsOk_def)
qed

text \<open>
  \<open>exSelected\<close> is reachable and has both counts at 3; \<open>handlePlace\<close> called there on
  the empty cell (1,2) places nothing.
\<close>

theorem placed_counts_bounded_witness:
  "reachable exSelected
   \<and> count (xPlayer exSelected) = 3 \<and> count (oPlayer exSelected) = 3
   \<and> 3 \<le> count (deref exSelected (currentPlayer exSelected))
   \<and> readCell (board exSelected) 1 2 = Inr Empty
   \<and> handlePlace exSelected 1 2 = Inr exSelected"
proof -
  have c: "3 \<le> count (deref exSelected (currentPlayer exSelected))"
    by (simp add: exSelected_def deref_def)
  have r: "readCell (board exSelected) 1 2 = Inr Empty"
    by (simp add: exSelected_def readCell_def inBoard_def)
  show ?thesis
    using reachable_exSelected c r placed_counts_bounded[of exSelected 1 2]
    by (simp add: exSelected_def)
qed

subsection \<open>Pieces on the board and placed counts\<close>

text \<open>
  C10. In every reachable state the number of cells holding X equals the X player's
  count and the number of cells holding O equals the O player's count.
\<close>

theorem pieces_match_counts:
  "reachable s \<Longrightarrow>
     int (countCells (\<lambda>v. v = Sym X_sym) (board s)) = count (xPlayer s)
   \<and> int (countCells (\<lambda>v. v = Sym O_sym) (board s)) = count (oPlayer s)"
  using reachable_invariant[of s] by (simp add: invariant_def piecesOk_def)

theorem pieces_match_counts_witness:
  "reachable exWon
   \<and> countCells (\<lambda>v. v = Sym X_sym) (board exWon) = 3 \<and> count (xPlayer exWon) = 3
   \<and> countCells (\<lambda>v. v = Sym O_sym) (board exWon) = 2 \<and> count (oPlayer exWon) = 2"
  using reachable_exWon pieces_match_counts[OF reachable_exWon]
  by (simp add: exWon_def countCells_def)

subsection \<open>The outcomes of a click\<close>

lemma onCellClick_outcome:
  assumes "onCellClick s r c = Inr s'"
  shows "s' = s
    \<or> (winner s = Empty
        \<and> readCell (board s) r c = Inr (Sym (symbol (deref s (currentPlayer s))))
        \<and> s' = s\<lparr>selectedCell := Some (r, c)\<rparr>)
    \<or> (winner s = Empty \<and> selectedCell s = None \<and> count (deref s (currentPlayer s)) < 3
        \<and> readCell (board s) r c = Inr Empty
        \<and> checkAndSwitch (incrementCount
             (s\<lparr>board := updCell (board s) r c (Sym (symbol (deref s (currentPlayer s))))\<rparr>))
            = Inr s')
    \<or> (\<exists>row col w. winner s = Empty \<and> selectedCell s = Some (row, col)
        \<and> readCell (board s) r c = Inr Empty \<and> readCell (board s) row col = Inr w
        \<and> checkAndSwitch
             (s\<lparr>board := updCell (updCell (board s) r c w) row col Empty,
                selectedCell := None\<rparr>) = Inr s')"
proof (cases "winner s \<noteq> Empty")
  case True
  then show ?thesis using assms by (simp add: onCellClick_def)
next
  case nw: False
  show ?thesis
  proof (cases "selectedCell s")
    case (Some p)
    obtain row col where p: "p = (row, col)" by (cases p)
    have hm: "handleMove s r c = Inr s'" using assms nw Some by (simp add: onCellClick_def)
    show ?thesis
      using hm nw Some p
      by (auto simp: handleMove_def writeCell_def split: sum.splits if_splits)
  next
    case None
    show ?thesis
    proof (cases "count (deref s (currentPlayer s)) \<ge> 3")
      case True
      then have "onSelectPiece s r c = Inr s'" using assms nw None by (simp add: onCellClick_def)
      then show ?thesis using nw
        by (auto simp: onSelectPiece_def split: sum.splits if_splits)
    next
      case False
      then have "handlePlace s r c = Inr s'" using assms nw None by (simp add: onCellClick_def)
      then show ?thesis using nw None False
        by (auto simp: handlePlace_def writeCell_def split: sum.splits if_splits)
    qed
  qed
qed

lemma selOk_onCellClick:
  assumes "selOk s" "onCellClick s r c = Inr s'"
  shows "selOk s'"
  using onCellClick_outcome[OF assms(2)] assms(1)
proof (elim disjE exE conjE)
  assume "s' = s"
  then show ?thesis using assms(1) by simp
next
  assume "readCell (board s) r c = Inr (Sym (symbol (deref s (currentPlayer s))))"
    and "s' = s\<lparr>selectedCell := Some (r, c)\<rparr>"
  then show ?thesis by (simp add: selOk_def deref_def split: PlayerRef.splits)
next
  assume "checkAndSwitch (incrementCount
             (s\<lparr>board := updCell (board s) r c (Sym (symbol (deref s (currentPlayer s))))\<rparr>))
            = Inr s'" and "selectedCell s = None"
  then show ?thesis
    using checkAndSwitch_fields(4)
    by (fastforce simp: selOk_def incrementCount_def split: PlayerRef.splits)
next
  fix row col w
  assume "checkAndSwitch
             (s\<lparr>board := updCell (updCell (board s) r c w) row col Empty,
                selectedCell := None\<rparr>) = Inr s'"
  then show ?thesis
    using checkAndSwitch_fields(4) by (fastforce simp: selOk_def)
qed

subsection \<open>The selected cell\<close>

text \<open>
  C8. In every reachable state a selected cell, when there is one, holds the active
  player's symbol. The property (\<open>selOk\<close>, spelled out in the last conjunct) holds
  initially and after \<open>resetGame\<close>, and every completed click preserves it: selection
  and reselection pick a cell that holds the symbol, placement happens only with no
  selection, and movement clears the selection before the turn passes.
\<close>

theorem selected_cell_holds_active_symbol:
  "(reachable s \<longrightarrow>
      (\<forall>row col. selectedCell s = Some (row, col) \<longrightarrow>
         readCell (board s) row col = Inr (Sym (symbol (deref s (currentPlayer s))))))
   \<and> selOk initGame
   \<and> selOk (resetGame s)
   \<and> (selOk s \<and> onCellClick s rowIndex colIndex = Inr s' \<longrightarrow> selOk s')
   \<and> (selOk s \<longleftrightarrow>
        (\<forall>row col. selectedCell s = Some (row, col) \<longrightarrow>
           readCell (board s) row col = Inr (Sym (symbol (deref s (currentPlayer s))))))"
proof -
  have eq: "selOk t \<longleftrightarrow>
        (\<forall>row col. selectedCell t = Some (row, col) \<longrightarrow>
           readCell (board t) row col = Inr (Sym (symbol (deref t (currentPlayer t)))))" for t
    by (auto simp: selOk_def split: option.splits)
  have "selOk s" if "reachable s"
    using reachable_invariant[OF that] by (simp add: invariant_def)
  moreover have "selOk initGame" "selOk (resetGame s)"
    by (simp_all add: selOk_def initGame_def resetGame_def)
  moreover have "selOk s \<and> onCellClick s rowIndex colIndex = Inr s' \<longrightarrow> selOk s'"
    using selOk_onCellClick by blast
  ultimately show ?thesis using eq[of s] by blast
qed

text \<open>
  In the reachable state \<open>exSelected\<close> the selected cell (0,0) holds X, the active
  player's symbol; after reselecting (0,1), which also holds X, the property still holds.
\<close>

theorem selected_cell_holds_active_symbol_witness:
  "reachable exSelected \<and> selectedCell exSelected = Some (0, 0)
   \<and> readCell (board exSelected) 0 0 = Inr (Sym X_sym)
   \<and> symbol (deref exSelected (currentPlayer exSelected)) = X_sym
   \<and> selOk exSelected
   \<and> onCellClick exSelected 0 1 = Inr (exSelected\<lparr>selectedCell := Some (0, 1)\<rparr>)
   \<and> selOk (exSelected\<lparr>selectedCell := Some (0, 1)\<rparr>)"
proof -
  have c: "onCellClick exSelected 0 1 = Inr (exSelected\<lparr>selectedCell := Some (0, 1)\<rparr>)"
    by (simp add: exSelected_def onCellClick_def handleMove_def readCell_def inBoard_def deref_def)
  show ?thesis
    using reachable_exSelected c
      selected_cell_holds_active_symbol[of exSelected 0 1 "exSelected\<lparr>selectedCell := Some (0, 1)\<rparr>"]
    by (simp add: exSelected_def deref_def)
qed

subsection \<open>Turns\<close>

lemma clicks_after_win: "winner s \<noteq> Empty \<Longrightarrow> clicks s cs = Inr s"
proof (induction cs)
  case Nil
  show ?case by simp
next
  case (Cons p cs)
  then show ?case by (cases p) (simp add: onCellClick_def)
qed

lemma checkAndSwitch_current:
  assumes "wellformed s" "checkAndSwitch s = Inr s'"
  shows "currentPlayer s' =
           (if winner s' = Empty then otherRef (currentPlayer s) else currentPlayer s)"
  using checkAndSwitch_fields(5)[OF assms(2)] assms(1)
  by (cases "currentPlayer s") (simp_all add: wellformed_def deref_def otherRef_def)

lemma placement_click_effect:
  assumes wf: "wellformed s" and nw: "winner s = Empty" and ns: "selectedCell s = None"
    and cnt: "count (deref s (currentPlayer s)) < 3"
    and rd: "readCell (board s) r c = Inr Empty"
  shows "\<exists>s'. onCellClick s r c = Inr s' \<and> board s' \<noteq> board s
    \<and> readCell (board s') r c = Inr (Sym (symbol (deref s (currentPlayer s))))
    \<and> currentPlayer s' =
        (if winner s' = Empty then otherRef (currentPlayer s) else currentPlayer s)"
proof -
  let ?sym = "symbol (deref s (currentPlayer s))"
  let ?b = "updCell (board s) r c (Sym ?sym)"
  let ?placed = "incrementCount (s\<lparr>board := ?b\<rparr>)"
  have wfb: "wfBoard (board s)" using wf by (simp add: wellformed_def)
  have bp: "board ?placed = ?b" and cp: "currentPlayer ?placed = currentPlayer s"
    by (simp_all add: incrementCount_def split: PlayerRef.splits)
  have wfp: "wellformed ?placed"
    using wf
    by (simp add: wellformed_def incrementCount_def wfBoard_updCell split: PlayerRef.splits)
  then obtain s' where cs: "checkAndSwitch ?placed = Inr s'"
    using checkAndSwitch_total[of ?placed] by (auto simp: wellformed_def)
  have click: "onCellClick s r c = Inr s'"
    using nw ns cnt handlePlace_place[OF rd cnt] cs by (simp add: onCellClick_def)
  have r': "readCell (board s') r c = Inr (Sym ?sym)"
    using checkAndSwitch_fields(1)[OF cs] bp
      readCell_updCell_same[OF wfb readCell_Inr_inBoard[OF rd], of "Sym ?sym"]
    by simp
  then have "board s' \<noteq> board s" using rd by auto
  then show ?thesis using click r' checkAndSwitch_current[OF wfp cs] cp by simp
qed

lemma movement_click_effect:
  assumes wf: "wellformed s" and so: "selOk s" and nw: "winner s = Empty"
    and sel: "selectedCell s = Some (row, col)"
    and rd: "readCell (board s) r c = Inr Empty"
  shows "\<exists>s'. onCellClick s r c = Inr s' \<and> board s' \<noteq> board s
    \<and> readCell (board s') r c = Inr (Sym (symbol (deref s (currentPlayer s))))
    \<and> readCell (board s') row col = Inr Empty
    \<and> selectedCell s' = None
    \<and> currentPlayer s' =
        (if winner s' = Empty then otherRef (currentPlayer s) else currentPlayer s)"
proof -
  let ?w = "Sym (symbol (deref s (currentPlayer s)))"
  let ?b1 = "updCell (board s) r c ?w"
  let ?moved = "s\<lparr>board := updCell ?b1 row col Empty, selectedCell := None\<rparr>"
  have wfb: "wfBoard (board s)" using wf by (simp add: wellformed_def)
  have rs: "readCell (board s) row col = Inr ?w"
    using so sel by (simp add: selOk_def)
  have ne: "(r, c) \<noteq> (row, col)" using rd rs by auto
  have wf1: "wfBoard ?b1" using wfb by (rule wfBoard_updCell)
  have is1: "inBoard ?b1 row col"
    using readCell_Inr_inBoard[OF rs] wfb by (simp add: inBoard_updCell)
  have wfm: "wellformed ?moved"
    using wf by (simp add: wellformed_def wfBoard_updCell)
  then obtain s' where cs: "checkAndSwitch ?moved = Inr s'"
    using checkAndSwitch_total[of ?moved] by (auto simp: wellformed_def)
  have click: "onCellClick s r c = Inr s'"
    using nw sel handleMove_move[OF wfb sel rd rs] cs by (simp add: onCellClick_def)
  note f = checkAndSwitch_fields[OF cs]
  have r1: "readCell (board s') r c = Inr ?w"
    using f(1) readCell_updCell_other[OF wf1 is1 ne, of Empty]
      readCell_updCell_same[OF wfb readCell_Inr_inBoard[OF rd], of ?w]
    by simp
  have r2: "readCell (board s') row col = Inr Empty"
    using f(1) readCell_updCell_same[OF wf1 is1, of Empty] by simp
  have "board s' \<noteq> board s" using r1 rd by auto
  then show ?thesis
    using click r1 r2 f(4) checkAndSwitch_current[OF wfm cs] by simp
qed

lemma other_click_effect:
  assumes res: "onCellClick s r c = Inr s'"
    and na: "\<not> (winner s = Empty \<and> readCell (board s) r c = Inr Empty
               \<and> (selectedCell s \<noteq> None \<or> count (deref s (currentPlayer s)) < 3))"
  shows "board s' = board s \<and> currentPlayer s' = currentPlayer s \<and> winner s' = winner s
    \<and> xPlayer s' = xPlayer s \<and> oPlayer s' = oPlayer s \<and> message s' = message s"
  using onCellClick_outcome[OF res] na by auto

text \<open>
  C5. X moves first and the turn alternates between the two players. An action is a
  placement click (no winner, no selected cell, fewer than three pieces placed by the
  active player, empty target) or a movement click (no winner, a selected cell, empty
  target). Every action completes, puts the active player's symbol into the target and
  so changes the board, and hands the turn to the other player exactly when it left no
  winner; a movement also empties the selected cell and clears the selection. Every
  other completed click, choosing or changing the piece to move included, leaves board,
  active player and winner as they were. Hence after any completed click the active
  player is the other player exactly when the board changed and no winner resulted.
  Once the winner is set, no click and no sequence of clicks changes the state, so the
  active player stays until \<open>resetGame\<close>.
\<close>

theorem turn_alternation:
  assumes "wellformed s" "selOk s"
  shows
    "(winner s = Empty \<and> selectedCell s = None \<and> count (deref s (currentPlayer s)) < 3
        \<and> readCell (board s) rowIndex colIndex = Inr Empty \<longrightarrow>
      (\<exists>s'. onCellClick s rowIndex colIndex = Inr s' \<and> board s' \<noteq> board s
         \<and> readCell (board s') rowIndex colIndex
               = Inr (Sym (symbol (deref s (currentPlayer s))))
         \<and> currentPlayer s' =
             (if winner s' = Empty then otherRef (currentPlayer s) else currentPlayer s)))
    \<and> (\<forall>row col. winner s = Empty \<and> selectedCell s = Some (row, col)
        \<and> readCell (board s) rowIndex colIndex = Inr Empty \<longrightarrow>
      (\<exists>s'. onCellClick s rowIndex colIndex = Inr s' \<and> board s' \<noteq> board s
         \<and> readCell (board s') rowIndex colIndex
               = Inr (Sym (symbol (deref s (currentPlayer s))))
         \<and> readCell (board s') row col = Inr Empty
         \<and> selectedCell s' = None
         \<and> currentPlayer s' =
             (if winner s' = Empty then otherRef (currentPlayer s) else currentPlayer s)))
    \<and> (\<forall>s'. onCellClick s rowIndex colIndex = Inr s'
        \<and> \<not> (winner s = Empty \<and> readCell (board s) rowIndex colIndex = Inr Empty
              \<and> (selectedCell s \<noteq> None \<or> count (deref s (currentPlayer s)) < 3)) \<longrightarrow>
        board s' = board s \<and> currentPlayer s' = currentPlayer s \<and> winner s' = winner s)
    \<and> (\<forall>s'. onCellClick s rowIndex colIndex = Inr s' \<longrightarrow>
        currentPlayer s' =
           (if board s' \<noteq> board s \<and> winner s' = Empty
            then otherRef (currentPlayer s) else currentPlayer s))
    \<and> (winner s \<noteq> Empty \<longrightarrow>
        onCellClick s rowIndex colIndex = Inr s \<and> (\<forall>cs. clicks s cs = Inr s))
    \<and> currentPlayer initGame = XPlayerRef
    \<and> otherRef XPlayerRef = OPlayerRef \<and> otherRef OPlayerRef = XPlayerRef"
proof -
  let ?action = "winner s = Empty \<and> readCell (board s) rowIndex colIndex = Inr Empty
              \<and> (selectedCell s \<noteq> None \<or> count (deref s (currentPlayer s)) < 3)"
  have place: "winner s = Empty \<and> selectedCell s = None
        \<and> count (deref s (currentPlayer s)) < 3
        \<and> readCell (board s) rowIndex colIndex = Inr Empty \<longrightarrow>
      (\<exists>s'. onCellClick s rowIndex colIndex = Inr s' \<and> board s' \<noteq> board s
         \<and> readCell (board s') rowIndex colIndex
               = Inr (Sym (symbol (deref s (currentPlayer s))))
         \<and> currentPlayer s' =
             (if winner s' = Empty then otherRef (currentPlayer s) else currentPlayer s))"
    using placement_click_effect[OF assms(1), of rowIndex colIndex] by blast
  have move: "\<forall>row col. winner s = Empty \<and> selectedCell s = Some (row, col)
        \<and> readCell (board s) rowIndex colIndex = Inr Empty \<longrightarrow>
      (\<exists>s'. onCellClick s rowIndex colIndex = Inr s' \<and> board s' \<noteq> board s
         \<and> readCell (board s') rowIndex colIndex
               = Inr (Sym (symbol (deref s (currentPlayer s))))
         \<and> readCell (board s') row col = Inr Empty
         \<and> selectedCell s' = None
         \<and> currentPlayer s' =
             (if winner s' = Empty then otherRef (currentPlayer s) else currentPlayer s))"
    using movement_click_effect[OF assms, of _ _ rowIndex colIndex] by blast
  have other: "\<forall>s'. onCellClick s rowIndex colIndex = Inr s' \<and> \<not> ?action \<longrightarrow>
        board s' = board s \<and> currentPlayer s' = currentPlayer s \<and> winner s' = winner s"
    using other_click_effect[of s rowIndex colIndex] by blast
  have step: "\<forall>s'. onCellClick s rowIndex colIndex = Inr s' \<longrightarrow>
        currentPlayer s' =
           (if board s' \<noteq> board s \<and> winner s' = Empty
            then otherRef (currentPlayer s) else currentPlayer s)"
  proof (intro allI impI)
    fix s'
    assume res: "onCellClick s rowIndex colIndex = Inr s'"
    show "currentPlayer s' =
           (if board s' \<noteq> board s \<and> winner s' = Empty
            then otherRef (currentPlayer s) else currentPlayer s)"
    proof (cases ?action)
      case False
      then have "board s' = board s \<and> currentPlayer s' = currentPlayer s"
        using other_click_effect[OF res] by blast
      then show ?thesis by simp
    next
      case act: True
      have "board s' \<noteq> board s \<and> currentPlayer s' =
             (if winner s' = Empty then otherRef (currentPlayer s) else currentPlayer s)"
      proof (cases "selectedCell s")
        case None
        then obtain t where "onCellClick s rowIndex colIndex = Inr t" "board t \<noteq> board s"
          "currentPlayer t =
             (if winner t = Empty then otherRef (currentPlayer s) else currentPlayer s)"
          using placement_click_effect[OF assms(1), of rowIndex colIndex] act by blast
        then show ?thesis using res by simp
      next
        case (Some p)
        obtain row col where p: "p = (row, col)" by (cases p)
        obtain t where "onCellClick s rowIndex colIndex = Inr t" "board t \<noteq> board s"
          "currentPlayer t =
             (if winner t = Empty then otherRef (currentPlayer s) else currentPlayer s)"
          using movement_click_effect[OF assms, of row col rowIndex colIndex] act Some p
          by blast
        then show ?thesis using res by simp
      qed
      then show ?thesis by simp
    qed
  qed
  have frozen: "winner s \<noteq> Empty \<longrightarrow>
        onCellClick s rowIndex colIndex = Inr s \<and> (\<forall>cs. clicks s cs = Inr s)"
    using clicks_after_win[of s] by (simp add: onCellClick_def)
  have init: "currentPlayer initGame = XPlayerRef
    \<and> otherRef XPlayerRef = OPlayerRef \<and> otherRef OPlayerRef = XPlayerRef"
    by (simp add: initGame_def otherRef_def)
  show ?thesis
    by (rule conjI[OF place conjI[OF move conjI[OF other conjI[OF step conjI[OF frozen init]]]]])
qed

text \<open>
  From \<open>exPlacing\<close>, X placing at (2,2) wins nothing and O becomes active. From
  \<open>exSelected\<close>, X moving the selected piece from (0,0) to (1,2) wins nothing and O
  becomes active, while reselecting (0,1) leaves X active. X placing at (0,2) in
  \<open>exPlacing\<close> wins, X stays active, and three further clicks leave \<open>exWon\<close> as it is.
\<close>

theorem turn_alternation_witness:
  "wellformed exPlacing \<and> selOk exPlacing \<and> wellformed exSelected \<and> selOk exSelected
   \<and> currentPlayer exPlacing = XPlayerRef \<and> currentPlayer exSelected = XPlayerRef
   \<and> (\<exists>s'. onCellClick exPlacing 2 2 = Inr s' \<and> winner s' = Empty
         \<and> board s' \<noteq> board exPlacing \<and> currentPlayer s' = OPlayerRef)
   \<and> (\<exists>s'. onCellClick exSelected 1 2 = Inr s' \<and> winner s' = Empty
         \<and> board s' \<noteq> board exSelected
         \<and> readCell (board s') 1 2 = Inr (Sym X_sym)
         \<and> readCell (board s') 0 0 = Inr Empty
         \<and> selectedCell s' = None \<and> currentPlayer s' = OPlayerRef)
   \<and> onCellClick exSelected 0 1 = Inr (exSelected\<lparr>selectedCell := Some (0, 1)\<rparr>)
   \<and> currentPlayer (exSelected\<lparr>selectedCell := Some (0, 1)\<rparr>) = XPlayerRef
   \<and> onCellClick exPlacing 0 2 = Inr exWon
   \<and> winner exWon = Sym X_sym \<and> currentPlayer exWon = XPlayerRef
   \<and> clicks exWon [(2, 2), (1, 2), (0, 0)] = Inr exWon"
proof -
  have h: "wellformed exPlacing" "selOk exPlacing"
    and k: "wellformed exSelected" "selOk exSelected"
    and w: "wellformed exWon" "selOk exWon"
    by (simp_all add: exPlacing_def exSelected_def exWon_def wellformed_def wfBoard_def
        selOk_def deref_def readCell_def inBoard_def)
  have st: "currentPlayer exPlacing = XPlayerRef" "winner exPlacing = Empty"
    "selectedCell exPlacing = None" "count (deref exPlacing (currentPlayer exPlacing)) < 3"
    "symbol (deref exPlacing (currentPlayer exPlacing)) = X_sym"
    "currentPlayer exSelected = XPlayerRef" "winner exSelected = Empty"
    "selectedCell exSelected = Some (0, 0)"
    "symbol (deref exSelected (currentPlayer exSelected)) = X_sym"
    "winner exWon = Sym X_sym" "currentPlayer exWon = XPlayerRef"
    by (simp_all add: exPlacing_def exSelected_def exWon_def deref_def)
  have r1: "readCell (board exPlacing) 2 2 = Inr Empty"
    and r2: "readCell (board exSelected) 1 2 = Inr Empty"
    by (simp_all add: exPlacing_def exSelected_def readCell_def inBoard_def)
  have c1: "onCellClick exPlacing 0 2 = Inr exWon"
    by (simp add: exPlacing_def exWon_def eval_defs)
  have c2: "onCellClick exSelected 0 1 = Inr (exSelected\<lparr>selectedCell := Some (0, 1)\<rparr>)"
    by (simp add: exSelected_def onCellClick_def handleMove_def readCell_def inBoard_def
        deref_def)
  have n1: "\<exists>t. onCellClick exPlacing 2 2 = Inr t \<and> winner t = Empty"
    by (simp add: exPlacing_def eval_defs)
  have n2: "\<exists>t. onCellClick exSelected 1 2 = Inr t \<and> winner t = Empty"
    by (simp add: exSelected_def eval_defs)
  note tp = turn_alternation[OF h, of 2 2]
  note ts = turn_alternation[OF k, of 1 2]
  note tw = turn_alternation[OF w, of 2 2]
  obtain p' where p': "onCellClick exPlacing 2 2 = Inr p'" "board p' \<noteq> board exPlacing"
    "currentPlayer p' =
       (if winner p' = Empty then otherRef (currentPlayer exPlacing)
        else currentPlayer exPlacing)"
    using tp[THEN conjunct1] st(2,3,4) r1 by blast
  have a: "\<exists>s'. onCellClick exPlacing 2 2 = Inr s' \<and> winner s' = Empty
         \<and> board s' \<noteq> board exPlacing \<and> currentPlayer s' = OPlayerRef"
    using p' n1 st(1) by (auto simp: otherRef_def)
  obtain m' where m': "onCellClick exSelected 1 2 = Inr m'" "board m' \<noteq> board exSelected"
    "readCell (board m') 1 2 = Inr (Sym (symbol (deref exSelected (currentPlayer exSelected))))"
    "readCell (board m') 0 0 = Inr Empty" "selectedCell m' = None"
    "currentPlayer m' =
       (if winner m' = Empty then otherRef (currentPlayer exSelected)
        else currentPlayer exSelected)"
    using ts[THEN conjunct2, THEN conjunct1] st(7,8) r2 by blast
  have b: "\<exists>s'. onCellClick exSelected 1 2 = Inr s' \<and> winner s' = Empty
         \<and> board s' \<noteq> board exSelected
         \<and> readCell (board s') 1 2 = Inr (Sym X_sym)
         \<and> readCell (board s') 0 0 = Inr Empty
         \<and> selectedCell s' = None \<and> currentPlayer s' = OPlayerRef"
    using m' n2 st(6,9) by (auto simp: otherRef_def)
  have "winner exWon \<noteq> Empty" using st(10) by simp
  then have c: "clicks exWon [(2, 2), (1, 2), (0, 0)] = Inr exWon"
    using tw[THEN conjunct2, THEN conjunct2, THEN conjunct2, THEN conjunct2, THEN conjunct1]
    by blast
  have d: "currentPlayer (exSelected\<lparr>selectedCell := Some (0, 1)\<rparr>) = XPlayerRef"
    using st(6) by simp
  show ?thesis
    by (intro conjI) (rule h k st(1) st(6) a b c2 d c1 st(10) st(11) c)+
qed

subsection \<open>Invalid clicks\<close>

text \<open>
  C6, as stated, fails: with a piece selected, a click on an occupied cell is not always
  a no-op. In the state \<open>exSelected\<close>, reached from the initial state by seven clicks,
  X has selected (0,0); a click on (0,1), which holds another X piece, changes the
  selected cell to (0,1).
\<close>

theorem occupied_target_counterexample:
  "clicks initGame [(0, 0), (1, 1), (0, 1), (0, 2), (2, 0), (1, 0), (0, 0)] = Inr exSelected
   \<and> winner exSelected = Empty
   \<and> selectedCell exSelected = Some (0, 0)
   \<and> readCell (board exSelected) 0 1 = Inr (Sym X_sym)
   \<and> onCellClick exSelected 0 1 = Inr (exSelected\<lparr>selectedCell := Some (0, 1)\<rparr>)
   \<and> onCellClick exSelected 0 1 \<noteq> Inr exSelected"
  by (simp add: exSelected_def eval_defs)

text \<open>
  C6, amended. For indices in 0..2 and a state of the class whose selected cell, if any,
  holds the active player's symbol: clicking an occupied cell during placement (whatever
  the count), selecting a cell that is empty or holds the opponent's piece, moving onto a
  cell that holds the opponent's piece or onto the selected cell itself, and clicking
  after a win all return the state unchanged. Moving onto another piece of the active
  player changes the selected cell to it and nothing else. No such click throws.
\<close>

theorem invalid_clicks:
  assumes "wellformed s" "selOk s"
    "0 \<le> rowIndex" "rowIndex < 3" "0 \<le> colIndex" "colIndex < 3"
  shows "(readCell (board s) rowIndex colIndex \<noteq> Inr Empty \<longrightarrow>
            handlePlace s rowIndex colIndex = Inr s)
    \<and> (winner s = Empty \<and> selectedCell s = None \<and> count (deref s (currentPlayer s)) < 3
         \<and> readCell (board s) rowIndex colIndex \<noteq> Inr Empty \<longrightarrow>
            onCellClick s rowIndex colIndex = Inr s)
    \<and> (winner s = Empty \<and> selectedCell s = None \<and> 3 \<le> count (deref s (currentPlayer s))
         \<and> readCell (board s) rowIndex colIndex \<noteq> Inr (Sym (symbol (deref s (currentPlayer s))))
         \<longrightarrow> onCellClick s rowIndex colIndex = Inr s)
    \<and> (winner s = Empty \<and> selectedCell s \<noteq> None
         \<and> readCell (board s) rowIndex colIndex \<noteq> Inr Empty
         \<and> (readCell (board s) rowIndex colIndex
               \<noteq> Inr (Sym (symbol (deref s (currentPlayer s))))
             \<or> selectedCell s = Some (rowIndex, colIndex))
         \<longrightarrow> onCellClick s rowIndex colIndex = Inr s)
    \<and> (winner s = Empty \<and> selectedCell s \<noteq> None
         \<and> readCell (board s) rowIndex colIndex
               = Inr (Sym (symbol (deref s (currentPlayer s))))
         \<and> selectedCell s \<noteq> Some (rowIndex, colIndex)
         \<longrightarrow> onCellClick s rowIndex colIndex = Inr (s\<lparr>selectedCell := Some (rowIndex, colIndex)\<rparr>))
    \<and> (winner s \<noteq> Empty \<longrightarrow> onCellClick s rowIndex colIndex = Inr s)
    \<and> (\<exists>s'. onCellClick s rowIndex colIndex = Inr s')"
proof -
  let ?cur = "Sym (symbol (deref s (currentPlayer s)))"
  have wfb: "wfBoard (board s)" using assms(1) by (simp add: wellformed_def)
  obtain v where rd: "readCell (board s) rowIndex colIndex = Inr v"
    using readCell_wf[OF wfb assms(3-6)] by blast
  have place: "readCell (board s) rowIndex colIndex \<noteq> Inr Empty \<longrightarrow>
            handlePlace s rowIndex colIndex = Inr s"
    using rd by (simp add: handlePlace_def)
  have placing: "winner s = Empty \<and> selectedCell s = None \<and> count (deref s (currentPlayer s)) < 3
         \<and> readCell (board s) rowIndex colIndex \<noteq> Inr Empty \<longrightarrow>
            onCellClick s rowIndex colIndex = Inr s"
    using place by (simp add: onCellClick_def)
  have selecting: "winner s = Empty \<and> selectedCell s = None
         \<and> 3 \<le> count (deref s (currentPlayer s))
         \<and> readCell (board s) rowIndex colIndex \<noteq> Inr ?cur
         \<longrightarrow> onCellClick s rowIndex colIndex = Inr s"
    using rd by (simp add: onCellClick_def onSelectPiece_def)
  have moving: "winner s = Empty \<and> selectedCell s \<noteq> None
         \<and> readCell (board s) rowIndex colIndex \<noteq> Inr Empty
         \<and> (readCell (board s) rowIndex colIndex \<noteq> Inr ?cur
             \<or> selectedCell s = Some (rowIndex, colIndex))
         \<longrightarrow> onCellClick s rowIndex colIndex = Inr s"
    using rd by (auto simp: onCellClick_def handleMove_def)
  have reselect: "winner s = Empty \<and> selectedCell s \<noteq> None
         \<and> readCell (board s) rowIndex colIndex = Inr ?cur
         \<and> selectedCell s \<noteq> Some (rowIndex, colIndex)
         \<longrightarrow> onCellClick s rowIndex colIndex = Inr (s\<lparr>selectedCell := Some (rowIndex, colIndex)\<rparr>)"
    using rd by (auto simp: onCellClick_def handleMove_def)
  have won: "winner s \<noteq> Empty \<longrightarrow> onCellClick s rowIndex colIndex = Inr s"
    by (simp add: onCellClick_def)
  have total: "\<exists>s'. onCellClick s rowIndex colIndex = Inr s'"
  proof (cases "winner s \<noteq> Empty")
    case True
    then show ?thesis by (simp add: onCellClick_def)
  next
    case nw: False
    show ?thesis
    proof (cases "selectedCell s")
      case (Some p)
      obtain row col where p: "p = (row, col)" by (cases p)
      have rs: "readCell (board s) row col = Inr ?cur"
        using assms(2) Some p by (simp add: selOk_def)
      show ?thesis
      proof (cases "v = Empty")
        case True
        let ?moved = "s\<lparr>board := updCell (updCell (board s) rowIndex colIndex ?cur) row col Empty,
                        selectedCell := None\<rparr>"
        have "wfBoard (board ?moved)" using wfb by (simp add: wfBoard_updCell)
        then obtain s' where "checkAndSwitch ?moved = Inr s'"
          using checkAndSwitch_total by blast
        then show ?thesis
          using nw Some p rd True handleMove_move[OF wfb _ _ rs, of rowIndex colIndex]
          by (simp add: onCellClick_def)
      next
        case False
        then show ?thesis using nw Some p rd by (simp add: onCellClick_def handleMove_def)
      qed
    next
      case None
      show ?thesis
      proof (cases "v = Empty \<and> count (deref s (currentPlayer s)) < 3")
        case True
        let ?placed = "incrementCount
             (s\<lparr>board := updCell (board s) rowIndex colIndex ?cur\<rparr>)"
        have "wfBoard (board ?placed)"
          using wfb by (simp add: incrementCount_def wfBoard_updCell split: PlayerRef.splits)
        then obtain s' where "checkAndSwitch ?placed = Inr s'"
          using checkAndSwitch_total by blast
        then show ?thesis
          using nw None rd True handlePlace_place[of s rowIndex colIndex]
          by (simp add: onCellClick_def)
      next
        case False
        then show ?thesis
          using nw None rd by (auto simp: onCellClick_def onSelectPiece_def handlePlace_def)
      qed
    qed
  qed
  show ?thesis
    using place placing selecting moving reselect won total by blast
qed

text \<open>
  In \<open>exSelected\<close>, clicks on O's piece at (0,2) and on the selected cell (0,0) change
  nothing; in \<open>exPlacing\<close>, a click on the occupied cell (0,0) changes nothing.
\<close>

theorem invalid_clicks_witness:
  "wellformed exSelected \<and> selOk exSelected
   \<and> (0::int) \<le> 0 \<and> (0::int) < 3 \<and> (0::int) \<le> 2 \<and> (2::int) < 3
   \<and> readCell (board exSelected) 0 2 = Inr (Sym O_sym)
   \<and> onCellClick exSelected 0 2 = Inr exSelected
   \<and> onCellClick exSelected 0 0 = Inr exSelected
   \<and> wellformed exPlacing \<and> selOk exPlacing
   \<and> readCell (board exPlacing) 0 0 = Inr (Sym X_sym)
   \<and> onCellClick exPlacing 0 0 = Inr exPlacing"
proof -
  have h: "wellformed exSelected" "selOk exSelected"
    and k: "wellformed exPlacing" "selOk exPlacing"
    by (simp_all add: exSelected_def exPlacing_def wellformed_def wfBoard_def selOk_def
        deref_def readCell_def inBoard_def)
  have st: "winner exSelected = Empty" "selectedCell exSelected = Some (0, 0)"
    "symbol (deref exSelected (currentPlayer exSelected)) = X_sym"
    "winner exPlacing = Empty" "selectedCell exPlacing = None"
    "count (deref exPlacing (currentPlayer exPlacing)) < 3"
    by (simp_all add: exSelected_def exPlacing_def deref_def)
  have r1: "readCell (board exSelected) 0 2 = Inr (Sym O_sym)"
    and r2: "readCell (board exSelected) 0 0 = Inr (Sym X_sym)"
    and r3: "readCell (board exPlacing) 0 0 = Inr (Sym X_sym)"
    by (simp_all add: exSelected_def exPlacing_def readCell_def inBoard_def)
  have a: "onCellClick exSelected 0 2 = Inr exSelected"
    using invalid_clicks[OF h, of 0 2] st r1 by simp
  have b: "onCellClick exSelected 0 0 = Inr exSelected"
    using invalid_clicks[OF h, of 0 0] st r2 by simp
  have c: "onCellClick exPlacing 0 0 = Inr exPlacing"
    using invalid_clicks[OF k, of 0 0] st r3 by simp
  show ?thesis using h k r1 r3 a b c by simp
qed

end
